theory Spec2Isabelle
  imports Main
begin

section \<open>Values of the report\<close>

text \<open>
  The analyzer builds its report out of Python dictionaries, lists, strings and numbers.
  A dictionary keeps its keys in insertion order, and the serializer writes them in that
  order, so a dictionary is an association list.  \<open>PCtx\<close> is the syntax-tree object
  (\<open>ast.Load()\<close>, \<open>ast.Store()\<close>, \<open>ast.Del()\<close>) that \<open>visit_Name\<close> stores as it is.
  Number literals are modelled for integers only.
\<close>

datatype expr_context = Load | Store | Del

datatype pyval =
    PNone
  | PNum int
  | PStr string
  | PList "pyval list"
  | PDict "(string \<times> pyval) list"
  | PCtx expr_context

type_synonym pydict = "(string \<times> pyval) list"

datatype error = SyntaxError | AttributeError | TypeError | GitCommandError

text \<open>\<open>d[k] = v\<close>: an existing key keeps its place, a new key goes last.\<close>

fun setitem :: "pydict \<Rightarrow> string \<Rightarrow> pyval \<Rightarrow> pydict" where
  "setitem [] k v = [(k, v)]"
| "setitem ((k', v') # d) k v =
     (if k' = k then (k, v) # d else (k', v') # setitem d k v)"

text \<open>
  \<open>d[k]\<close> on a \<open>defaultdict(list)\<close>: the stored value, or a fresh empty list that is
  stored under \<open>k\<close> by the lookup itself.
\<close>

definition getitem_default :: "pydict \<Rightarrow> string \<Rightarrow> pyval" where
  "getitem_default d k = (case map_of d k of None \<Rightarrow> PList [] | Some v \<Rightarrow> v)"

text \<open>
  \<open>d[k].append(x)\<close> on a \<open>defaultdict(list)\<close>.  A value that is not a list has no
  \<open>append\<close>: Python raises \<open>AttributeError\<close>.
\<close>

definition append_item :: "pydict \<Rightarrow> string \<Rightarrow> pyval \<Rightarrow> error + pydict" where
  "append_item d k x =
     (case getitem_default d k of
        PList xs \<Rightarrow> Inr (setitem d k (PList (xs @ [x])))
      | _ \<Rightarrow> Inl AttributeError)"

section \<open>Syntax trees\<close>

text \<open>
  The nodes of Python's \<open>ast\<close> module that the analyzer names, with the fields it
  reads, in the order the class declares them; a few statement kinds it does not name
  (\<open>Module\<close>, \<open>Expr\<close>, \<open>Assign\<close>, \<open>If\<close> as \<open>IfStmt\<close>, \<open>While\<close>, \<open>For\<close>), with all their
  node-valued fields; and \<open>Other\<close>, a node of any remaining class (a return statement, a
  binary operation, a lambda, ...), with its child nodes in field order.  \<open>FunctionDef\<close>
  carries the names \<open>a.arg\<close> of \<open>args.args\<close>; a keyword of a call is its name, if it has
  one, and its value.  \<open>Num\<close> and \<open>Str\<close> are the literals that \<open>isinstance\<close> finds to be
  \<open>ast.Num\<close> and \<open>ast.Str\<close>.
\<close>

datatype import_alias = Alias (alias_name: string) (asname: "string option")

datatype ast =
    Module "ast list"
  | Import "import_alias list"
  | ImportFrom "string option" "import_alias list" nat
  | ClassDef string "ast list" "ast list"
  | FunctionDef string "string list" "ast list"
  | Call ast "ast list" "(string option \<times> ast) list"
  | Name string expr_context
  | Attribute ast string expr_context
  | Num int
  | Str string
  | Expr ast
  | Assign "ast list" ast
  | IfStmt ast "ast list" "ast list"
  | While ast "ast list" "ast list"
  | For ast ast "ast list" "ast list"
  | Other "ast list"

section \<open>The analyzer\<close>

text \<open>\<open>visit_Import\<close> and \<open>visit_ImportFrom\<close>: one append per imported name.\<close>

fun import_names :: "import_alias list \<Rightarrow> pydict \<Rightarrow> error + pydict" where
  "import_names [] d = Inr d"
| "import_names (a # as) d =
     (case append_item d ''imports'' (PStr (alias_name a)) of
        Inl e \<Rightarrow> Inl e
      | Inr d' \<Rightarrow> import_names as d')"

text \<open>The loop over \<open>ast_node.bases\<close> in \<open>visit_ClassDef\<close>.\<close>

fun class_bases :: "ast list \<Rightarrow> pyval list" where
  "class_bases [] = []"
| "class_bases (Name ident ctx # bs) = PStr ident # class_bases bs"
| "class_bases (Attribute v attr ctx # bs) = PStr attr # class_bases bs"
| "class_bases (b # bs) = class_bases bs"

text \<open>The \<open>func\<close> entry of a call node: absent unless the callee is a name or an attribute.\<close>

fun call_func :: "ast \<Rightarrow> pydict \<Rightarrow> pydict" where
  "call_func (Name ident ctx) node = setitem node ''func'' (PStr ident)"
| "call_func (Attribute v attr ctx) node = setitem node ''func'' (PStr attr)"
| "call_func func node = node"

text \<open>\<open>keyword.arg\<close> is \<open>None\<close> for a \<open>**mapping\<close> argument.\<close>

fun keyword_arg :: "string option \<times> ast \<Rightarrow> pyval" where
  "keyword_arg (None, v) = PNone"
| "keyword_arg (Some name, v) = PStr name"

definition call_node :: "ast \<Rightarrow> pyval list \<Rightarrow> (string option \<times> ast) list \<Rightarrow> pydict" where
  "call_node func args keywords =
     setitem
       (setitem (call_func func (setitem [] ''type'' (PStr ''function_call'')))
          ''args'' (PList args))
       ''keywords'' (PList (map keyword_arg keywords))"

definition name_node :: "string \<Rightarrow> expr_context \<Rightarrow> pydict" where
  "name_node ident ctx = setitem (setitem [] ''name'' (PStr ident)) ''type'' (PCtx ctx)"

text \<open>
  \<open>Analyzer(node).visit(ast_node)\<close>.  \<open>ast.NodeVisitor.visit\<close> calls the method
  \<open>visit_\<close>\<^emph>\<open>classname\<close> when the visitor has one and \<open>generic_visit\<close> otherwise, which
  visits every child node, field by field.  The dictionary \<open>d\<close> is \<open>self.node\<close>: each
  handler mutates it, so it is passed along and returned.  \<open>visit_each\<close> visits a list of
  nodes in turn on the same dictionary: the iteration of \<open>generic_visit\<close> over the
  children, and the loops \<open>for ast_child_node in ast_node.body: parse_node(ast_child_node, node)\<close>
  of \<open>visit_ClassDef\<close> and \<open>visit_FunctionDef\<close>, where each new analyzer works on the one
  dictionary \<open>node\<close>.  \<open>call_args\<close> is the loop over \<open>ast_node.args\<close> in \<open>visit_Call\<close>; a
  nested call is analyzed into a dictionary of its own.
\<close>

fun visit :: "ast \<Rightarrow> pydict \<Rightarrow> error + pydict"
  and visit_each :: "ast list \<Rightarrow> pydict \<Rightarrow> error + pydict"
  and call_args :: "ast list \<Rightarrow> error + pyval list"
where
  "visit (Import names) d = import_names names d"
| "visit (ImportFrom modname names lvl) d = import_names names d"
| "visit (ClassDef name bases body) d =
     (case visit_each body
             (setitem (setitem [] ''name'' (PStr name)) ''bases'' (PList (class_bases bases))) of
        Inl e \<Rightarrow> Inl e
      | Inr node \<Rightarrow> append_item d ''classes'' (PDict node))"
| "visit (FunctionDef name params body) d =
     (case visit_each body
             (setitem (setitem [] ''name'' (PStr name)) ''args'' (PList (map PStr params))) of
        Inl e \<Rightarrow> Inl e
      | Inr node \<Rightarrow> append_item d ''functions'' (PDict node))"
| "visit (Call func args keywords) d =
     (case call_args args of
        Inl e \<Rightarrow> Inl e
      | Inr vs \<Rightarrow> append_item d ''statements'' (PDict (call_node func vs keywords)))"
| "visit (Name ident ctx) d = append_item d ''statements'' (PDict (name_node ident ctx))"
| "visit (Module body) d = visit_each body d"
| "visit (Attribute v attr ctx) d = visit v d"
| "visit (Num n) d = Inr d"
| "visit (Str s) d = Inr d"
| "visit (Expr v) d = visit v d"
| "visit (Assign targets v) d =
     (case visit_each targets d of Inl e \<Rightarrow> Inl e | Inr d' \<Rightarrow> visit v d')"
| "visit (IfStmt test body orelse) d =
     (case visit test d of
        Inl e \<Rightarrow> Inl e
      | Inr d' \<Rightarrow> (case visit_each body d' of Inl e \<Rightarrow> Inl e | Inr d'' \<Rightarrow> visit_each orelse d''))"
| "visit (While test body orelse) d =
     (case visit test d of
        Inl e \<Rightarrow> Inl e
      | Inr d' \<Rightarrow> (case visit_each body d' of Inl e \<Rightarrow> Inl e | Inr d'' \<Rightarrow> visit_each orelse d''))"
| "visit (For target iter body orelse) d =
     (case visit target d of
        Inl e \<Rightarrow> Inl e
      | Inr d1 \<Rightarrow>
          (case visit iter d1 of
             Inl e \<Rightarrow> Inl e
           | Inr d2 \<Rightarrow>
               (case visit_each body d2 of Inl e \<Rightarrow> Inl e | Inr d3 \<Rightarrow> visit_each orelse d3)))"
| "visit (Other children) d = visit_each children d"
| "visit_each [] d = Inr d"
| "visit_each (n # ns) d =
     (case visit n d of Inl e \<Rightarrow> Inl e | Inr d' \<Rightarrow> visit_each ns d')"
| "call_args [] = Inr []"
| "call_args (Name ident ctx # as) =
     (case call_args as of Inl e \<Rightarrow> Inl e | Inr vs \<Rightarrow> Inr (PStr ident # vs))"
| "call_args (Call func args keywords # as) =
     (case visit (Call func args keywords) [] of
        Inl e \<Rightarrow> Inl e
      | Inr call_dict \<Rightarrow>
          (case call_args as of Inl e \<Rightarrow> Inl e | Inr vs \<Rightarrow> Inr (PDict call_dict # vs)))"
| "call_args (Num n # as) =
     (case call_args as of Inl e \<Rightarrow> Inl e | Inr vs \<Rightarrow> Inr (PNum n # vs))"
| "call_args (Str s # as) =
     (case call_args as of Inl e \<Rightarrow> Inl e | Inr vs \<Rightarrow> Inr (PStr s # vs))"
| "call_args (a # as) = call_args as"

text \<open>\<open>parse_node\<close>: a new analyzer on \<open>node\<close> visits \<open>ast_node\<close>; its dictionary is returned.\<close>

definition parse_node :: "ast \<Rightarrow> pydict \<Rightarrow> error + pydict" where
  "parse_node ast_node node = visit ast_node node"

section \<open>Reports\<close>

text \<open>
  A report in progress is a dictionary whose four report fields, where present, hold
  lists: the analyzer only ever appends to them.  \<open>field d k\<close> is the list that \<open>d[k]\<close>
  reads on the default-valued dictionary.
\<close>

definition report_fields :: "string list" where
  "report_fields = [''imports'', ''classes'', ''functions'', ''statements'']"

fun is_list :: "pyval \<Rightarrow> bool" where
  "is_list (PList xs) = True"
| "is_list v = False"

fun list_items :: "pyval \<Rightarrow> pyval list" where
  "list_items (PList xs) = xs"
| "list_items v = []"

definition is_report :: "pydict \<Rightarrow> bool" where
  "is_report d = list_all (\<lambda>k. is_list (getitem_default d k)) report_fields"

definition field :: "pydict \<Rightarrow> string \<Rightarrow> pyval list" where
  "field d k = list_items (getitem_default d k)"

section \<open>Generic traversal\<close>

text \<open>
  \<open>handled n\<close>: the analyzer has a \<open>visit_\<close> method for the class of \<open>n\<close>.
  \<open>iter_child_nodes n\<close>: the child nodes of \<open>n\<close> (of the fields kept here) in field
  order, as \<open>generic_visit\<close> iterates over them.  \<open>nested_in c n\<close>: \<open>c\<close> is \<open>n\<close>, or lies
  below \<open>n\<close> with no handled node strictly above it on the way down from \<open>n\<close>;
  \<open>nested_path\<close> is the same relation as an inductive predicate, for rule induction.
\<close>

fun handled :: "ast \<Rightarrow> bool" where
  "handled (Import names) = True"
| "handled (ImportFrom modname names lvl) = True"
| "handled (ClassDef name bases body) = True"
| "handled (FunctionDef name params body) = True"
| "handled (Call func args keywords) = True"
| "handled (Name ident ctx) = True"
| "handled n = False"

fun iter_child_nodes :: "ast \<Rightarrow> ast list" where
  "iter_child_nodes (Module body) = body"
| "iter_child_nodes (Import names) = []"
| "iter_child_nodes (ImportFrom modname names lvl) = []"
| "iter_child_nodes (ClassDef name bases body) = bases @ body"
| "iter_child_nodes (FunctionDef name params body) = body"
| "iter_child_nodes (Call func args keywords) = func # args @ map snd keywords"
| "iter_child_nodes (Name ident ctx) = []"
| "iter_child_nodes (Attribute v attr ctx) = [v]"
| "iter_child_nodes (Num n) = []"
| "iter_child_nodes (Str s) = []"
| "iter_child_nodes (Expr v) = [v]"
| "iter_child_nodes (Assign targets v) = targets @ [v]"
| "iter_child_nodes (IfStmt test body orelse) = test # body @ orelse"
| "iter_child_nodes (While test body orelse) = test # body @ orelse"
| "iter_child_nodes (For target iter body orelse) = target # iter # body @ orelse"
| "iter_child_nodes (Other children) = children"

fun nested_in :: "ast \<Rightarrow> ast \<Rightarrow> bool" and nested_in_any :: "ast \<Rightarrow> ast list \<Rightarrow> bool" where
  "nested_in c (Module body) = (c = Module body \<or> nested_in_any c body)"
| "nested_in c (Attribute v attr ctx) = (c = Attribute v attr ctx \<or> nested_in c v)"
| "nested_in c (Expr v) = (c = Expr v \<or> nested_in c v)"
| "nested_in c (Assign targets v) =
     (c = Assign targets v \<or> nested_in_any c targets \<or> nested_in c v)"
| "nested_in c (IfStmt test body orelse) =
     (c = IfStmt test body orelse \<or> nested_in c test \<or> nested_in_any c body
        \<or> nested_in_any c orelse)"
| "nested_in c (While test body orelse) =
     (c = While test body orelse \<or> nested_in c test \<or> nested_in_any c body
        \<or> nested_in_any c orelse)"
| "nested_in c (For target iter body orelse) =
     (c = For target iter body orelse \<or> nested_in c target \<or> nested_in c iter
        \<or> nested_in_any c body \<or> nested_in_any c orelse)"
| "nested_in c (Other children) = (c = Other children \<or> nested_in_any c children)"
| "nested_in c n = (c = n)"
| "nested_in_any c [] = False"
| "nested_in_any c (n # ns) = (nested_in c n \<or> nested_in_any c ns)"

inductive nested_path :: "ast \<Rightarrow> ast \<Rightarrow> bool" where
  here: "nested_path c c"
| deeper: "\<not> handled n \<Longrightarrow> ch \<in> set (iter_child_nodes n) \<Longrightarrow> nested_path c ch \<Longrightarrow> nested_path c n"



section \<open>Call arguments, as the specification words them\<close>

text \<open>
  What the arguments of a call contribute, following the specification: an identifier
  its name, a literal number or string its value, a nested call a fresh report into
  which the call has been analyzed, anything else nothing.
\<close>

fun classify_args :: "ast list \<Rightarrow> pyval list" where
  "classify_args [] = []"
| "classify_args (Name ident ctx # as) = PStr ident # classify_args as"
| "classify_args (Num n # as) = PNum n # classify_args as"
| "classify_args (Str s # as) = PStr s # classify_args as"
| "classify_args (Call func args keywords # as) =
     PDict [(''statements'', PList [PDict (call_node func (classify_args args) keywords)])]
       # classify_args as"
| "classify_args (a # as) = classify_args as"

text \<open>
  The depth to which calls are nested as arguments of calls in the syntax tree, and the
  depth to which call records are nested in a value.
\<close>

fun call_depth :: "ast \<Rightarrow> nat" and args_depth :: "ast list \<Rightarrow> nat" where
  "call_depth (Call func args keywords) = Suc (args_depth args)"
| "call_depth n = 0"
| "args_depth [] = 0"
| "args_depth (a # as) = max (call_depth a) (args_depth as)"

fun fragment_depth :: "pyval \<Rightarrow> nat"
  and values_depth :: "pyval list \<Rightarrow> nat"
  and items_depth :: "(string \<times> pyval) list \<Rightarrow> nat"
where
  "fragment_depth (PDict kvs) =
     (if map_of kvs ''type'' = Some (PStr ''function_call'')
      then Suc (items_depth kvs) else items_depth kvs)"
| "fragment_depth (PList vs) = values_depth vs"
| "fragment_depth v = 0"
| "values_depth [] = 0"
| "values_depth (v # vs) = max (fragment_depth v) (values_depth vs)"
| "items_depth [] = 0"
| "items_depth ((k, v) # kvs) = max (fragment_depth v) (items_depth kvs)"

section \<open>Serialization\<close>

text \<open>
  \<open>json.dumps\<close> with its defaults apart from the separators: keys in dictionary order,
  every character outside the printable ASCII range escaped.  A string is a list of
  code points below 256.  A syntax-tree object is not serializable: \<open>TypeError\<close>.
\<close>

fun join :: "string \<Rightarrow> string list \<Rightarrow> string" where
  "join sep [] = []"
| "join sep [x] = x"
| "join sep (x # y # zs) = x @ sep @ join sep (y # zs)"

definition hex_digit :: "nat \<Rightarrow> char" where
  "hex_digit n = (if n < 10 then char_of (48 + n) else char_of (87 + n))"

definition escape_char :: "char \<Rightarrow> string" where
  "escape_char c =
     (if c = CHR 0x22 then [CHR 0x5C, CHR 0x22]
      else if c = CHR 0x5C then [CHR 0x5C, CHR 0x5C]
      else if c = CHR 0x0A then [CHR 0x5C, CHR ''n'']
      else if c = CHR 0x0D then [CHR 0x5C, CHR ''r'']
      else if c = CHR 0x09 then [CHR 0x5C, CHR ''t'']
      else if c = CHR 0x08 then [CHR 0x5C, CHR ''b'']
      else if c = CHR 0x0C then [CHR 0x5C, CHR ''f'']
      else if (of_char c :: nat) < 32 \<or> (of_char c :: nat) > 126
      then [CHR 0x5C, CHR ''u'', CHR ''0'', CHR ''0'',
            hex_digit (of_char c div 16), hex_digit (of_char c mod 16)]
      else [c])"

definition json_string :: "string \<Rightarrow> string" where
  "json_string s = CHR 0x22 # concat (map escape_char s) @ [CHR 0x22]"

fun digits :: "nat \<Rightarrow> string" where
  "digits n = (if n < 10 then [char_of (48 + n)] else digits (n div 10) @ [char_of (48 + n mod 10)])"

declare digits.simps [simp del]

definition repr_int :: "int \<Rightarrow> string" where
  "repr_int i = (if i < 0 then CHR ''-'' # digits (nat (- i)) else digits (nat i))"

fun dumps :: "string \<Rightarrow> string \<Rightarrow> pyval \<Rightarrow> error + string"
  and dumps_list :: "string \<Rightarrow> string \<Rightarrow> pyval list \<Rightarrow> error + string list"
  and dumps_items :: "string \<Rightarrow> string \<Rightarrow> (string \<times> pyval) list \<Rightarrow> error + string list"
where
  "dumps item_sep key_sep PNone = Inr ''null''"
| "dumps item_sep key_sep (PNum i) = Inr (repr_int i)"
| "dumps item_sep key_sep (PStr s) = Inr (json_string s)"
| "dumps item_sep key_sep (PList vs) =
     (case dumps_list item_sep key_sep vs of
        Inl e \<Rightarrow> Inl e
      | Inr parts \<Rightarrow> Inr (''['' @ join item_sep parts @ '']''))"
| "dumps item_sep key_sep (PDict kvs) =
     (case dumps_items item_sep key_sep kvs of
        Inl e \<Rightarrow> Inl e
      | Inr parts \<Rightarrow> Inr (''{'' @ join item_sep parts @ ''}''))"
| "dumps item_sep key_sep (PCtx c) = Inl TypeError"
| "dumps_list item_sep key_sep [] = Inr []"
| "dumps_list item_sep key_sep (v # vs) =
     (case dumps item_sep key_sep v of
        Inl e \<Rightarrow> Inl e
      | Inr s \<Rightarrow>
          (case dumps_list item_sep key_sep vs of
             Inl e \<Rightarrow> Inl e
           | Inr parts \<Rightarrow> Inr (s # parts)))"
| "dumps_items item_sep key_sep [] = Inr []"
| "dumps_items item_sep key_sep ((k, v) # kvs) =
     (case dumps item_sep key_sep v of
        Inl e \<Rightarrow> Inl e
      | Inr s \<Rightarrow>
          (case dumps_items item_sep key_sep kvs of
             Inl e \<Rightarrow> Inl e
           | Inr parts \<Rightarrow> Inr ((json_string k @ key_sep @ s) # parts)))"

definition to_json :: "pyval \<Rightarrow> error + string" where
  "to_json data = dumps '','' '':'' data"

text \<open>
  The keys and string values of a value, the whitespace characters, and the report
  field that each construct of a syntax tree writes to, in the order of the traversal;
  \<open>add_key\<close> is how a dictionary takes a key that may be new.
\<close>

fun strings_of :: "pyval \<Rightarrow> string list"
  and strings_of_list :: "pyval list \<Rightarrow> string list"
  and strings_of_items :: "(string \<times> pyval) list \<Rightarrow> string list"
where
  "strings_of (PStr s) = [s]"
| "strings_of (PList vs) = strings_of_list vs"
| "strings_of (PDict kvs) = strings_of_items kvs"
| "strings_of v = []"
| "strings_of_list [] = []"
| "strings_of_list (v # vs) = strings_of v @ strings_of_list vs"
| "strings_of_items [] = []"
| "strings_of_items ((k, v) # kvs) = k # strings_of v @ strings_of_items kvs"

definition whitespace :: "char set" where
  "whitespace = {CHR '' '', CHR 0x09, CHR 0x0A, CHR 0x0D}"

definition add_key :: "string list \<Rightarrow> string \<Rightarrow> string list" where
  "add_key ks k = (if k \<in> set ks then ks else ks @ [k])"

fun fields_written :: "ast \<Rightarrow> string list" and fields_written_each :: "ast list \<Rightarrow> string list" where
  "fields_written (Import names) = map (\<lambda>a. ''imports'') names"
| "fields_written (ImportFrom modname names lvl) = map (\<lambda>a. ''imports'') names"
| "fields_written (ClassDef name bases body) = [''classes'']"
| "fields_written (FunctionDef name params body) = [''functions'']"
| "fields_written (Call func args keywords) = [''statements'']"
| "fields_written (Name ident ctx) = [''statements'']"
| "fields_written (Module body) = fields_written_each body"
| "fields_written (Attribute v attr ctx) = fields_written v"
| "fields_written (Num n) = []"
| "fields_written (Str s) = []"
| "fields_written (Expr v) = fields_written v"
| "fields_written (Assign targets v) = fields_written_each targets @ fields_written v"
| "fields_written (IfStmt test body orelse) =
     fields_written test @ fields_written_each body @ fields_written_each orelse"
| "fields_written (While test body orelse) =
     fields_written test @ fields_written_each body @ fields_written_each orelse"
| "fields_written (For target iter body orelse) =
     fields_written target @ fields_written iter @ fields_written_each body
       @ fields_written_each orelse"
| "fields_written (Other children) = fields_written_each children"
| "fields_written_each [] = []"
| "fields_written_each (n # ns) = fields_written n @ fields_written_each ns"

section \<open>Files, directories and the collaborators outside the program\<close>

text \<open>
  What the program reads of the file system: a path is a regular file with its text, a
  directory with its entries in the order the operating system lists them, or
  something else (a socket, a dangling link).  A directory is a finite tree, so links
  that form a cycle are left out.

  \<open>env\<close> holds what the program takes from outside: the exclusion list of the module
  \<open>ignore\<close>, the parser \<open>ast.parse\<close>, the scheme that \<open>urlparse\<close> finds in a locator,
  the outcome of \<open>Repo.clone_from\<close> (the files of the clone, or its failure), the
  name that \<open>tempfile\<close> picks for a new directory, and the working directory.
\<close>

datatype fs_node =
    RegularFile string
  | Directory "(string \<times> fs_node) list"
  | Special

type_synonym filesystem = "string \<Rightarrow> fs_node option"

record env =
  files_to_ignore :: "string list"
  ast_parse :: "string \<Rightarrow> error + ast"
  url_scheme :: "string \<Rightarrow> string"
  clone_from :: "string \<Rightarrow> error + (string \<times> fs_node) list"
  mkdtemp :: "filesystem \<Rightarrow> string"
  getcwd :: string

subsection \<open>Paths\<close>

definition endswith :: "string \<Rightarrow> string \<Rightarrow> bool" where
  "endswith s suffix =
     (length suffix \<le> length s \<and> drop (length s - length suffix) s = suffix)"

text \<open>\<open>s.rsplit('/', 1)[-1]\<close> and \<open>os.path.basename\<close>: what follows the last slash.\<close>

definition rsplit_last :: "string \<Rightarrow> string" where
  "rsplit_last s = rev (takeWhile (\<lambda>c. c \<noteq> CHR ''/'') (rev s))"

definition basename :: "string \<Rightarrow> string" where
  "basename p = rev (takeWhile (\<lambda>c. c \<noteq> CHR ''/'') (rev p))"

text \<open>\<open>s.split('/')\<close>.\<close>

fun split_slash :: "string \<Rightarrow> string list" where
  "split_slash [] = [[]]"
| "split_slash (c # cs) =
     (if c = CHR ''/'' then [] # split_slash cs
      else (case split_slash cs of [] \<Rightarrow> [[c]] | w # ws \<Rightarrow> (c # w) # ws))"

text \<open>\<open>os.path.join(a, b)\<close> for a relative \<open>b\<close>.\<close>

definition path_join :: "string \<Rightarrow> string \<Rightarrow> string" where
  "path_join a b = (if a = [] \<or> last a = CHR ''/'' then a @ b else a @ ''/'' @ b)"

text \<open>
  The path that \<open>glob.iglob(os.path.join(real_name, '*'))\<close> gives for the entry \<open>name\<close>
  of \<open>real_name\<close>: \<open>os.path.split\<close> cuts the pattern at its last slash and strips the
  slashes that end the head, unless the head is made of slashes only; the entry is
  joined to that head.  (\<open>real_name\<close> is taken to hold none of \<open>*\<close>, \<open>?\<close>, \<open>[\<close>.)
\<close>

definition glob_head :: "string \<Rightarrow> string" where
  "glob_head real_name =
     (let head = (if real_name = [] \<or> last real_name = CHR ''/'' then real_name
                  else real_name @ ''/'')
      in if set head \<subseteq> {CHR ''/''} then head
         else rev (dropWhile (\<lambda>c. c = CHR ''/'') (rev head)))"

definition glob_path :: "string \<Rightarrow> string \<Rightarrow> string" where
  "glob_path real_name name = path_join (glob_head real_name) name"

text \<open>\<open>glob\<close> leaves out the entries whose name starts with a dot.\<close>

fun ishidden :: "string \<Rightarrow> bool" where
  "ishidden [] = False"
| "ishidden (c # cs) = (c = CHR ''.'')"

text \<open>
  \<open>os.path.relpath(path, start)\<close> on POSIX: both paths are made absolute and normal
  (empty and \<open>.\<close> components dropped, \<open>..\<close> resolved), the common prefix of the
  components is cut, and one \<open>..\<close> stands for each component left of \<open>start\<close>.
\<close>

definition norm_step :: "string list \<Rightarrow> string \<Rightarrow> string list" where
  "norm_step comps part =
     (if part = [] \<or> part = ''.'' then comps
      else if part = ''..'' then butlast comps
      else comps @ [part])"

definition abs_components :: "string \<Rightarrow> string \<Rightarrow> string list" where
  "abs_components cwd p =
     foldl norm_step []
       (split_slash (if p \<noteq> [] \<and> hd p = CHR ''/'' then p else cwd @ ''/'' @ p))"

fun common_prefix_length :: "string list \<Rightarrow> string list \<Rightarrow> nat" where
  "common_prefix_length (x # xs) (y # ys) =
     (if x = y then Suc (common_prefix_length xs ys) else 0)"
| "common_prefix_length xs ys = 0"

definition relpath :: "string \<Rightarrow> string \<Rightarrow> string \<Rightarrow> string" where
  "relpath cwd path start =
     (let start_list = abs_components cwd start;
          path_list = abs_components cwd path;
          i = common_prefix_length start_list path_list;
          rel_list = replicate (length start_list - i) ''..'' @ drop i path_list
      in if rel_list = [] then ''.'' else join ''/'' rel_list)"

subsection \<open>One file\<close>

text \<open>
  \<open>process_regular_file\<close>, given the text that \<open>source.read()\<close> returns.  A file of
  another extension gives \<open>None\<close>; a failure of the parser is raised to the caller.
\<close>

definition process_regular_file :: "env \<Rightarrow> string \<Rightarrow> string \<Rightarrow> error + pyval" where
  "process_regular_file env file_name source =
     (if \<not> endswith file_name ''.py'' then Inr PNone
      else
        (case ast_parse env source of
           Inl e \<Rightarrow> Inl e
         | Inr tree \<Rightarrow>
             (case parse_node tree [] of
                Inl e \<Rightarrow> Inl e
              | Inr root_node \<Rightarrow> Inr (PDict root_node))))"

subsection \<open>A directory\<close>

text \<open>
  \<open>process_directory\<close>, given the entries of \<open>real_name\<close>.  The list recursion is the
  loop over the paths that \<open>glob\<close> gives; the entry of a file is its report with three
  more keys, the entry of a directory a dictionary with one key.  Storing a key into
  the \<open>None\<close> of a skipped file would raise \<open>TypeError\<close>.
\<close>

definition file_entry :: "pydict \<Rightarrow> string \<Rightarrow> string \<Rightarrow> pyval" where
  "file_entry processed_node file simple_name =
     PDict (setitem
              (setitem (setitem processed_node ''short_name'' (PStr (basename file)))
                 ''name'' (PStr simple_name))
              ''full_name'' (PStr file))"

fun process_directory ::
  "env \<Rightarrow> string \<Rightarrow> string \<Rightarrow> (string \<times> fs_node) list \<Rightarrow> error + pyval list"
where
  "process_directory env root_name real_name [] = Inr []"
| "process_directory env root_name real_name ((name, RegularFile source) # rest) =
     (let file = glob_path real_name name;
          simple_name = relpath (getcwd env) file root_name
      in if \<not> ishidden name \<and> endswith file ''.py'' then
           (case process_regular_file env file source of
              Inl e \<Rightarrow> Inl e
            | Inr (PDict processed_node) \<Rightarrow>
                (case process_directory env root_name real_name rest of
                   Inl e \<Rightarrow> Inl e
                 | Inr package_nodes \<Rightarrow>
                     Inr (file_entry processed_node file simple_name # package_nodes))
            | Inr other \<Rightarrow> Inl TypeError)
         else process_directory env root_name real_name rest)"
| "process_directory env root_name real_name ((name, Directory children) # rest) =
     (let file = glob_path real_name name;
          simple_name = relpath (getcwd env) file root_name
      in if \<not> ishidden name \<and> simple_name \<notin> set (files_to_ignore env) then
           (case process_directory env root_name file children of
              Inl e \<Rightarrow> Inl e
            | Inr child_nodes \<Rightarrow>
                (case process_directory env root_name real_name rest of
                   Inl e \<Rightarrow> Inl e
                 | Inr package_nodes \<Rightarrow>
                     Inr (if child_nodes \<noteq> []
                          then PDict [(simple_name, PList child_nodes)] # package_nodes
                          else package_nodes)))
         else process_directory env root_name real_name rest)"
| "process_directory env root_name real_name ((name, Special) # rest) =
     process_directory env root_name real_name rest"

section \<open>Dispatch on the locator, and remote repositories\<close>

text \<open>
  \<open>parse_source_file\<close> with \<open>process_url\<close> in its first branch.  The file system is
  state: \<open>tempfile.TemporaryDirectory()\<close> makes a directory, the clone fills it, and
  leaving the \<open>with\<close> block removes it, whether the block returns or raises.  The two
  functions call each other, and nothing in them bounds the recursion, so the result is
  an \<open>option\<close>: \<open>None\<close> stands for a call that does not return.  A result is the value
  returned or the error raised, together with the file system left behind.  A locator
  that is neither a URL, a file nor a directory falls off the end of the function:
  Python returns \<open>None\<close>.
\<close>

partial_function (option) parse_source_file ::
  "env \<Rightarrow> filesystem \<Rightarrow> string \<Rightarrow> string option
     \<Rightarrow> ((error + pyval) \<times> filesystem) option"
where
  "parse_source_file env fs file_name project_name =
     (if url_scheme env file_name \<in> {''http'', ''https''} then
        (let temp_dirname = mkdtemp env fs;
             fs1 = fs(temp_dirname \<mapsto> Directory [])
         in case clone_from env file_name of
              Inl e \<Rightarrow> Some (Inl e, fs1(temp_dirname := None))
            | Inr files \<Rightarrow>
                Option.bind
                  (parse_source_file env (fs1(temp_dirname \<mapsto> Directory files)) temp_dirname
                     (Some (rsplit_last file_name)))
                  (\<lambda>(result, fs2). Some (result, fs2(temp_dirname := None))))
      else
        (case fs file_name of
           Some (RegularFile source) \<Rightarrow> Some (process_regular_file env file_name source, fs)
         | Some (Directory entries) \<Rightarrow>
             (let name = (case project_name of
                            None \<Rightarrow> basename file_name
                          | Some given \<Rightarrow> if given = [] then basename file_name else given)
              in case process_directory env file_name file_name entries of
                   Inl e \<Rightarrow> Some (Inl e, fs)
                 | Inr nodes \<Rightarrow> Some (Inr (PDict [(name, PList nodes)]), fs))
         | _ \<Rightarrow> Some (Inr PNone, fs)))"


section \<open>Walks, and the inputs of the examples\<close>


text \<open>
  The texts of the files that a walk hands to the parser, in the order of the walk, and
  the first failure of the parser on a list of texts.
\<close>

fun walked_sources :: "env \<Rightarrow> string \<Rightarrow> string \<Rightarrow> (string \<times> fs_node) list \<Rightarrow> string list" where
  "walked_sources env root_name real_name [] = []"
| "walked_sources env root_name real_name ((name, RegularFile source) # rest) =
     (if \<not> ishidden name \<and> endswith (glob_path real_name name) ''.py'' then [source] else [])
       @ walked_sources env root_name real_name rest"
| "walked_sources env root_name real_name ((name, Directory children) # rest) =
     (if \<not> ishidden name \<and>
         relpath (getcwd env) (glob_path real_name name) root_name \<notin> set (files_to_ignore env)
      then walked_sources env root_name (glob_path real_name name) children else [])
       @ walked_sources env root_name real_name rest"
| "walked_sources env root_name real_name ((name, Special) # rest) =
     walked_sources env root_name real_name rest"

fun first_failure :: "env \<Rightarrow> string list \<Rightarrow> error option" where
  "first_failure env [] = None"
| "first_failure env (source # sources) =
     (case ast_parse env source of
        Inl e \<Rightarrow> Some e
      | Inr tree \<Rightarrow> first_failure env sources)"

text \<open>
  The scenario of the specification: the tree that \<open>ast.parse\<close> gives for
  \<^verbatim>\<open>import os\<close>, \<^verbatim>\<open>class A(Base):\<close>, \<^verbatim>\<open>    def f(self, x):\<close>, \<^verbatim>\<open>        bar(1, 'a')\<close>.
  The call is the value of an expression statement.
\<close>

definition scenario_tree :: ast where
  "scenario_tree =
     Module
       [Import [Alias ''os'' None],
        ClassDef ''A'' [Name ''Base'' Load]
          [FunctionDef ''f'' [''self'', ''x'']
             [Expr (Call (Name ''bar'' Load) [Num 1, Str ''a''] [])]]]"

text \<open>
  An environment for the examples: a parser known on the empty text and on
  \<^verbatim>\<open>import os\<close> and failing elsewhere, \<open>venv\<close> excluded, a clone that holds one empty
  file \<open>m.py\<close>.
\<close>

definition sample_env :: env where
  "sample_env =
     \<lparr>files_to_ignore = [''venv''],
      ast_parse = (\<lambda>source.
         if source = [] then Inr (Module [])
         else if source = ''import os'' then Inr (Module [Import [Alias ''os'' None]])
         else Inl SyntaxError),
      url_scheme = (\<lambda>locator. if take 8 locator = ''https://'' then ''https'' else []),
      clone_from = (\<lambda>git_url. Inr [(''m.py'', RegularFile [])]),
      mkdtemp = (\<lambda>fs. ''/tmp/tmpk3x9'' ),
      getcwd = ''/home/u''\<rparr>"

section \<open>Dictionary lemmas\<close>

lemma map_of_setitem: "map_of (setitem d k v) k' = (if k' = k then Some v else map_of d k')"
  by (induction d) auto

lemma getitem_default_setitem:
  "getitem_default (setitem d k v) k' = (if k' = k then v else getitem_default d k')"
  by (simp add: getitem_default_def map_of_setitem)

lemma keys_setitem:
  "map fst (setitem d k v) = (if k \<in> fst ` set d then map fst d else map fst d @ [k])"
  by (induction d) force+

lemma append_item_list:
  "is_list (getitem_default d k) \<Longrightarrow>
   append_item d k x = Inr (setitem d k (PList (field d k @ [x])))"
  by (cases "getitem_default d k") (simp_all add: append_item_def field_def)

lemma append_item_Inr:
  "append_item d k x = Inr d' \<Longrightarrow> d' = setitem d k (PList (field d k @ [x]))"
  by (cases "getitem_default d k") (simp_all add: append_item_def field_def)

lemma is_report_field:
  "is_report d \<Longrightarrow> k \<in> set report_fields \<Longrightarrow> is_list (getitem_default d k)"
  by (simp add: is_report_def list_all_iff)

lemma is_report_setitem: "is_report d \<Longrightarrow> is_list v \<Longrightarrow> is_report (setitem d k v)"
  by (simp add: is_report_def list_all_iff getitem_default_setitem)

section \<open>Name references (C8)\<close>

text \<open>
  C8, as the code has it.  A name that is visited, alone as an expression statement or
  anywhere the traversal reaches it, appends one record to the \<open>statements\<close> of the
  enclosing report.  The record holds the identifier under \<open>name\<close> and the context object
  of the reference (\<open>Load\<close>, \<open>Store\<close> or \<open>Del\<close>) under \<open>type\<close>; it has no field named
  \<open>context\<close>.
\<close>

theorem visit_Name_appends:
  assumes "is_report d"
  shows "visit (Name ident ctx) d =
           Inr (setitem d ''statements''
                  (PList (field d ''statements'' @
                            [PDict [(''name'', PStr ident), (''type'', PCtx ctx)]])))
    \<and> visit (Expr (Name ident ctx)) d = visit (Name ident ctx) d
    \<and> map_of (name_node ident ctx) ''context'' = None"
  using assms by (simp add: append_item_list is_report_field report_fields_def name_node_def)

theorem visit_Name_appends_witness:
  "is_report [(''imports'', PList [PStr ''os''])] \<and>
   visit (Expr (Name ''x'' Load)) [(''imports'', PList [PStr ''os''])] =
     Inr [(''imports'', PList [PStr ''os'']),
          (''statements'', PList [PDict [(''name'', PStr ''x''), (''type'', PCtx Load)]])]"
proof -
  have r: "is_report [(''imports'', PList [PStr ''os''])]"
    by (simp add: is_report_def report_fields_def getitem_default_def)
  show ?thesis
    using r visit_Name_appends [OF r, of "''x''" Load]
    by (simp add: field_def getitem_default_def)
qed

text \<open>
  C8 as the specification words it fails: the statement \<open>x\<close> gives a record whose keys are
  \<open>name\<close> and \<open>type\<close>, none of them \<open>context\<close>.
\<close>

theorem nameref_context_counterexample:
  "visit (Expr (Name ''x'' Load)) [] =
     Inr [(''statements'', PList [PDict [(''name'', PStr ''x''), (''type'', PCtx Load)]])]
   \<and> map fst (name_node ''x'' Load) = [''name'', ''type'']"
  by (simp add: append_item_def getitem_default_def name_node_def)

section \<open>The analyzer returns, and only appends\<close>

lemma is_report_empty: "is_report []"
  by (simp add: is_report_def report_fields_def getitem_default_def)

lemma is_report_new:
  "k \<notin> set report_fields \<Longrightarrow> k' \<notin> set report_fields \<Longrightarrow>
   is_report (setitem (setitem [] k v) k' v')"
  by (auto simp: is_report_def list_all_iff getitem_default_setitem getitem_default_def)

lemma statements_field: "''statements'' \<in> set report_fields"
  by (simp add: report_fields_def)

lemma append_item_report:
  "is_report d \<Longrightarrow> k \<in> set report_fields \<Longrightarrow>
   \<exists>d'. append_item d k x = Inr d' \<and> is_report d'"
  by (simp add: append_item_list is_report_field is_report_setitem)



lemma import_names_total:
  "is_report d \<Longrightarrow> \<exists>d'. import_names names d = Inr d' \<and> is_report d'"
proof (induction names arbitrary: d)
  case Nil
  then show ?case by simp
next
  case (Cons a as)
  have l: "is_list (getitem_default d ''imports'')"
    using Cons.prems by (simp add: is_report_field report_fields_def)
  have "is_report (setitem d ''imports'' (PList (field d ''imports'' @ [PStr (alias_name a)])))"
    using Cons.prems by (simp add: is_report_setitem)
  from Cons.IH [OF this] show ?case
    by (simp add: append_item_list [OF l])
qed


text \<open>
  On a report the analyzer never raises: every node is visited to the end, and the
  result is a report again.
\<close>

lemma visit_total:
  "is_report d \<Longrightarrow> \<exists>d'. visit n d = Inr d' \<and> is_report d'"
  "is_report d \<Longrightarrow> \<exists>d'. visit_each ns d = Inr d' \<and> is_report d'"
  "\<exists>vs. call_args as = Inr vs"
proof (induction n d and ns d and as rule: visit_visit_each_call_args.induct)
  case (3 name bases body d)
  have "is_report (setitem (setitem [] ''name'' (PStr name)) ''bases'' (PList (class_bases bases)))"
    by (rule is_report_new) (simp_all add: report_fields_def)
  from 3(1) [OF this] 3(2) show ?case
    by (auto simp: report_fields_def intro!: append_item_report)
next
  case (4 name params body d)
  have "is_report (setitem (setitem [] ''name'' (PStr name)) ''args'' (PList (map PStr params)))"
    by (rule is_report_new) (simp_all add: report_fields_def)
  from 4(1) [OF this] 4(2) show ?case
    by (auto simp: report_fields_def intro!: append_item_report)
next
  case (5 func args kws d)
  then show ?case by (auto intro!: append_item_report statements_field)
next
  case (6 ident ctx d)
  then show ?case by (auto intro!: append_item_report statements_field)
next
  case (15 target iter body orelse d)
  from 15(1) [OF 15(5)] obtain d1 where d1: "visit target d = Inr d1" "is_report d1"
    by blast
  from 15(2) [OF d1] obtain d2 where d2: "visit iter d1 = Inr d2" "is_report d2"
    by blast
  from 15(3) [OF d1(1) d2] obtain d3 where d3: "visit_each body d2 = Inr d3" "is_report d3"
    by blast
  from 15(4) [OF d1(1) d2(1) d3] show ?case
    by (simp add: d1 d2 d3)
qed (auto simp: import_names_total is_report_empty)









lemma nested_in_any_iff: "nested_in_any c ns \<longleftrightarrow> (\<exists>ch \<in> set ns. nested_in c ch)"
  by (induction ns) auto

lemma nested_in_refl: "nested_in c c"
  by (cases c) auto

lemma nested_path_in: "nested_path c n \<Longrightarrow> nested_in c n"
proof (induction rule: nested_path.induct)
  case (here c)
  show ?case by (rule nested_in_refl)
next
  case (deeper n ch c)
  then show ?case
    by (cases n) (auto simp: nested_in_any_iff)
qed

section \<open>Nodes without a handler (C1)\<close>




section \<open>Call arguments (C4)\<close>

lemma call_args_classify: "call_args as = Inr (classify_args as)"
proof (induction as rule: classify_args.induct)
  case (5 func args kws as)
  then show ?case
    by (simp add: append_item_def getitem_default_def)
qed simp_all

lemma call_node_items:
  "call_node func vs kws =
     (''type'', PStr ''function_call'') #
     (case func of
        Name ident ctx \<Rightarrow> [(''func'', PStr ident)]
      | Attribute v attr ctx \<Rightarrow> [(''func'', PStr attr)]
      | _ \<Rightarrow> []) @
     [(''args'', PList vs), (''keywords'', PList (map keyword_arg kws))]"
  by (cases func) (simp_all add: call_node_def)

lemma keyword_args_depth: "values_depth (map keyword_arg kws) = 0"
proof (induction kws)
  case Nil
  then show ?case by simp
next
  case (Cons k kws)
  then show ?case by (cases k; cases "fst k") auto
qed

lemma call_node_depth: "items_depth (call_node func vs kws) = values_depth vs"
  by (cases func) (simp_all add: call_node_items keyword_args_depth)

lemma call_node_type: "map_of (call_node func vs kws) ''type'' = Some (PStr ''function_call'')"
  by (simp add: call_node_items)

lemma values_depth_classify: "values_depth (classify_args as) = args_depth as"
  by (induction as rule: classify_args.induct) (simp_all add: call_node_depth call_node_type)

text \<open>
  C4.  The loop over the arguments of a call never raises and gives what the
  specification says: \<open>classify_args\<close>.  The call record that is appended holds these
  values under \<open>args\<close> and, under \<open>keywords\<close>, the keyword names alone (\<open>None\<close> for a
  \<open>**\<close> argument), whatever the keyword values are.  Call records are nested in it as
  deep as calls are nested as arguments in the syntax tree.
\<close>

theorem call_arguments_classified:
  "call_args args = Inr (classify_args args) \<and>
   (is_report d \<longrightarrow>
      visit (Call func args kws) d =
        Inr (setitem d ''statements''
               (PList (field d ''statements'' @
                         [PDict (call_node func (classify_args args) kws)])))) \<and>
   map_of (call_node func (classify_args args) kws) ''args'' = Some (PList (classify_args args)) \<and>
   map_of (call_node func (classify_args args) kws) ''keywords''
     = Some (PList (map (\<lambda>k. case fst k of None \<Rightarrow> PNone | Some name \<Rightarrow> PStr name) kws)) \<and>
   fragment_depth (PDict (call_node func (classify_args args) kws))
     = call_depth (Call func args kws)"
proof (intro conjI impI)
  show "call_args args = Inr (classify_args args)"
    by (rule call_args_classify)
next
  assume "is_report d"
  then show "visit (Call func args kws) d =
        Inr (setitem d ''statements''
               (PList (field d ''statements'' @
                         [PDict (call_node func (classify_args args) kws)])))"
    by (simp add: call_args_classify append_item_list is_report_field statements_field)
next
  show "map_of (call_node func (classify_args args) kws) ''args'' = Some (PList (classify_args args))"
    by (cases func) (simp_all add: call_node_items)
next
  have "map keyword_arg kws
      = map (\<lambda>k. case fst k of None \<Rightarrow> PNone | Some name \<Rightarrow> PStr name) kws"
    by (rule map_cong) (auto split: option.splits)
  then show "map_of (call_node func (classify_args args) kws) ''keywords''
     = Some (PList (map (\<lambda>k. case fst k of None \<Rightarrow> PNone | Some name \<Rightarrow> PStr name) kws))"
    by (cases func) (simp_all add: call_node_items)
next
  show "fragment_depth (PDict (call_node func (classify_args args) kws))
     = call_depth (Call func args kws)"
    by (simp add: call_node_type call_node_depth values_depth_classify)
qed

theorem call_arguments_classified_witness:
  "is_report [] \<and>
   visit (Call (Attribute (Name ''o'' Load) ''f'' Load)
            [Name ''x'' Load, Num 2, Str ''s'', Other [Num 1, Num 2],
             Call (Name ''g'' Load) [Call (Name ''h'' Load) [] []] []]
            [(Some ''key'', Name ''v'' Load), (None, Name ''rest'' Load)]) [] =
     Inr [(''statements'',
           PList [PDict
             [(''type'', PStr ''function_call''), (''func'', PStr ''f''),
              (''args'',
               PList [PStr ''x'', PNum 2, PStr ''s'',
                 PDict [(''statements'', PList [PDict
                   [(''type'', PStr ''function_call''), (''func'', PStr ''g''),
                    (''args'',
                     PList [PDict [(''statements'', PList [PDict
                       [(''type'', PStr ''function_call''), (''func'', PStr ''h''),
                        (''args'', PList []), (''keywords'', PList [])]])]]),
                    (''keywords'', PList [])]])]]),
              (''keywords'', PList [PStr ''key'', PNone])]])]"
  using call_arguments_classified
    [of "[Name ''x'' Load, Num 2, Str ''s'', Other [Num 1, Num 2],
          Call (Name ''g'' Load) [Call (Name ''h'' Load) [] []] []]" "[]"
        "Attribute (Name ''o'' Load) ''f'' Load"
        "[(Some ''key'', Name ''v'' Load), (None, Name ''rest'' Load)]"]
  by (simp add: is_report_empty field_def getitem_default_def call_node_def append_item_def)

section \<open>Serialization (C7)\<close>

lemma set_join: "set (join sep parts) \<subseteq> set sep \<union> (\<Union>p \<in> set parts. set p)"
  by (induction sep parts rule: join.induct) auto

lemma of_char_whitespace: "c \<in> whitespace \<Longrightarrow> (of_char c :: nat) < 48"
  by (auto simp: whitespace_def)

lemma char_of_not_whitespace:
  "48 \<le> n \<Longrightarrow> n < 256 \<Longrightarrow> char_of (n::nat) \<notin> whitespace"
proof
  assume n: "48 \<le> n" "n < 256" and "char_of n \<in> whitespace"
  then have "(of_char (char_of n) :: nat) < 48"
    by (simp only: of_char_whitespace)
  with n show False
    by simp
qed

lemma hex_digit_not_whitespace: "n < 16 \<Longrightarrow> hex_digit n \<notin> whitespace"
  by (simp add: hex_digit_def char_of_not_whitespace)

lemma digit_not_whitespace: "n < 10 \<Longrightarrow> char_of (48 + n :: nat) \<notin> whitespace"
  by (simp add: char_of_not_whitespace)

lemma escape_char_whitespace: "c \<noteq> CHR '' '' \<Longrightarrow> set (escape_char c) \<inter> whitespace = {}"
proof -
  assume c: "c \<noteq> CHR '' ''"
  have h1: "hex_digit (of_char c div 16) \<notin> whitespace"
    by (rule hex_digit_not_whitespace) (simp add: div_less_iff_less_mult)
  have h2: "hex_digit (of_char c mod 16) \<notin> whitespace"
    by (rule hex_digit_not_whitespace) simp
  show ?thesis
    using c h1 h2 by (auto simp: escape_char_def whitespace_def)
qed

lemma json_string_whitespace:
  "CHR '' '' \<notin> set s \<Longrightarrow> set (json_string s) \<inter> whitespace = {}"
proof -
  assume s: "CHR '' '' \<notin> set s"
  have "\<And>c. c \<in> set s \<Longrightarrow> set (escape_char c) \<inter> whitespace = {}"
    using s by (auto intro!: escape_char_whitespace)
  then have "set (concat (map escape_char s)) \<inter> whitespace = {}"
    by auto
  moreover have "CHR 0x22 \<notin> whitespace"
    by (simp add: whitespace_def)
  ultimately show ?thesis
    by (auto simp: json_string_def)
qed

lemma digits_whitespace: "set (digits n) \<inter> whitespace = {}"
proof (induction n rule: digits.induct)
  case (1 n)
  show ?case
  proof (cases "n < 10")
    case True
    then show ?thesis
      using digit_not_whitespace [of n] by (subst digits.simps) simp
  next
    case False
    have "char_of (48 + n mod 10) \<notin> whitespace"
      by (rule digit_not_whitespace) simp
    with False 1 show ?thesis
      by (subst digits.simps) auto
  qed
qed

lemma repr_int_whitespace: "set (repr_int i) \<inter> whitespace = {}"
  using digits_whitespace by (auto simp: repr_int_def whitespace_def)

lemma dumps_compact:
  "dumps '','' '':'' v = Inr s \<Longrightarrow> \<forall>t \<in> set (strings_of v). CHR '' '' \<notin> set t \<Longrightarrow>
     set s \<inter> whitespace = {}"
  "dumps_list '','' '':'' vs = Inr parts \<Longrightarrow> \<forall>t \<in> set (strings_of_list vs). CHR '' '' \<notin> set t \<Longrightarrow>
     \<forall>p \<in> set parts. set p \<inter> whitespace = {}"
  "dumps_items '','' '':'' kvs = Inr parts \<Longrightarrow> \<forall>t \<in> set (strings_of_items kvs). CHR '' '' \<notin> set t \<Longrightarrow>
     \<forall>p \<in> set parts. set p \<inter> whitespace = {}"
proof (induction v and vs and kvs arbitrary: s and parts and parts
    rule: strings_of_strings_of_list_strings_of_items.induct)
  case (1 s')
  then show ?case using json_string_whitespace by auto
next
  case (2 vs)
  from 2(2) obtain parts where p: "dumps_list '','' '':'' vs = Inr parts"
    and s: "s = ''['' @ join '','' parts @ '']''"
    by (auto split: sum.splits)
  from 2(1) [OF p] 2(3) have "\<forall>p \<in> set parts. set p \<inter> whitespace = {}"
    by simp
  then have "set (join '','' parts) \<inter> whitespace = {}"
    using set_join [of "'',''" parts] by (auto simp: whitespace_def)
  then show ?case
    by (auto simp: s whitespace_def)
next
  case (3 kvs)
  from 3(2) obtain parts where p: "dumps_items '','' '':'' kvs = Inr parts"
    and s: "s = ''{'' @ join '','' parts @ ''}''"
    by (auto split: sum.splits)
  from 3(1) [OF p] 3(3) have "\<forall>p \<in> set parts. set p \<inter> whitespace = {}"
    by simp
  then have "set (join '','' parts) \<inter> whitespace = {}"
    using set_join [of "'',''" parts] by (auto simp: whitespace_def)
  then show ?case
    by (auto simp: s whitespace_def)
next
  case (6 v vs)
  from 6(3) obtain b rest where b: "dumps '','' '':'' v = Inr b"
    and rest: "dumps_list '','' '':'' vs = Inr rest"
    and parts: "parts = b # rest"
    by (auto split: sum.splits)
  have "set b \<inter> whitespace = {}"
    using 6(1) [OF b] 6(4) by simp
  moreover have "\<forall>p \<in> set rest. set p \<inter> whitespace = {}"
    using 6(2) [OF rest] 6(4) by simp
  ultimately show ?case
    by (simp add: parts)
next
  case (8 k v kvs)
  from 8(3) obtain b rest where b: "dumps '','' '':'' v = Inr b"
    and rest: "dumps_items '','' '':'' kvs = Inr rest"
    and parts: "parts = (json_string k @ '':'' @ b) # rest"
    by (auto split: sum.splits)
  have "set (json_string k) \<inter> whitespace = {}"
    using 8(4) by (auto intro!: json_string_whitespace)
  moreover have "set b \<inter> whitespace = {}"
    using 8(1) [OF b] 8(4) by simp
  moreover have "\<forall>p \<in> set rest. set p \<inter> whitespace = {}"
    using 8(2) [OF rest] 8(4) by simp
  ultimately show ?case
    by (auto simp: parts whitespace_def)
qed (use repr_int_whitespace in \<open>auto simp: whitespace_def\<close>)

lemma dumps_items_members:
  "dumps_items item_sep key_sep kvs = Inr parts \<Longrightarrow>
   \<exists>bodies. list_all2 (\<lambda>kv b. dumps item_sep key_sep (snd kv) = Inr b) kvs bodies \<and>
     parts = map2 (\<lambda>kv b. json_string (fst kv) @ key_sep @ b) kvs bodies"
proof (induction kvs arbitrary: parts)
  case Nil
  then show ?case by simp
next
  case (Cons kv kvs)
  obtain k v where kv: "kv = (k, v)" by (cases kv)
  from Cons.prems obtain b rest where b: "dumps item_sep key_sep v = Inr b"
    and rest: "dumps_items item_sep key_sep kvs = Inr rest"
    and parts: "parts = (json_string k @ key_sep @ b) # rest"
    by (auto simp: kv split: sum.splits)
  from Cons.IH [OF rest] obtain bodies
    where "list_all2 (\<lambda>kv b. dumps item_sep key_sep (snd kv) = Inr b) kvs bodies"
      and "rest = map2 (\<lambda>kv b. json_string (fst kv) @ key_sep @ b) kvs bodies"
    by blast
  then show ?case
    by (intro exI [of _ "b # bodies"]) (simp add: kv b parts)
qed

lemma append_item_keys: "append_item d k x = Inr d' \<Longrightarrow> map fst d' = add_key (map fst d) k"
  by (drule append_item_Inr) (simp add: keys_setitem add_key_def)

lemma import_names_keys:
  "import_names names d = Inr d' \<Longrightarrow>
   map fst d' = foldl add_key (map fst d) (map (\<lambda>a. ''imports'') names)"
proof (induction names arbitrary: d)
  case Nil
  then show ?case by simp
next
  case (Cons a as)
  then show ?case
    by (auto split: sum.splits dest: append_item_keys)
qed

lemma visit_keys:
  "visit n d = Inr d' \<Longrightarrow> map fst d' = foldl add_key (map fst d) (fields_written n)"
  "visit_each ns d = Inr d' \<Longrightarrow> map fst d' = foldl add_key (map fst d) (fields_written_each ns)"
  "call_args as = Inr vs \<Longrightarrow> True"
proof (induction n d and ns d and as arbitrary: d' and d' and vs
    rule: visit_visit_each_call_args.induct)
  case (1 names d)
  then show ?case by (simp add: import_names_keys)
next
  case (2 modname names lvl d)
  then show ?case by (simp add: import_names_keys)
qed (auto split: sum.splits dest: append_item_keys)

text \<open>
  C7, as the code has it.  Serialization is a function of the result and is compact: it
  puts no whitespace of its own into the text, so a result whose keys and strings hold no
  space serializes without any whitespace.  The members of a serialized dictionary stand
  in the order of the dictionary, joined by \<open>,\<close> and \<open>:\<close> alone.  The order of the keys
  of a report is the order in which the analyzer first wrote to them, that is, the order
  in which the traversal first meets a construct of each kind; it is not a fixed order.
\<close>

theorem serialization_compact_insertion_order:
  "(to_json v = Inr s \<longrightarrow> (\<forall>t \<in> set (strings_of v). CHR '' '' \<notin> set t) \<longrightarrow>
      set s \<inter> whitespace = {}) \<and>
   (to_json (PDict kvs) = Inr s' \<longrightarrow>
      (\<exists>bodies. list_all2 (\<lambda>kv b. to_json (snd kv) = Inr b) kvs bodies \<and>
         s' = ''{'' @ join '','' (map2 (\<lambda>kv b. json_string (fst kv) @ '':'' @ b) kvs bodies)
                @ ''}'')) \<and>
   (visit n d = Inr d' \<longrightarrow> map fst d' = foldl add_key (map fst d) (fields_written n))"
proof (intro conjI impI)
  assume "to_json v = Inr s" and "\<forall>t \<in> set (strings_of v). CHR '' '' \<notin> set t"
  then show "set s \<inter> whitespace = {}"
    unfolding to_json_def by (rule dumps_compact(1))
next
  assume "to_json (PDict kvs) = Inr s'"
  then obtain parts where p: "dumps_items '','' '':'' kvs = Inr parts"
    and s': "s' = ''{'' @ join '','' parts @ ''}''"
    by (auto simp: to_json_def split: sum.splits)
  from dumps_items_members [OF p] obtain bodies
    where "list_all2 (\<lambda>kv b. dumps '','' '':'' (snd kv) = Inr b) kvs bodies"
      and "parts = map2 (\<lambda>kv b. json_string (fst kv) @ '':'' @ b) kvs bodies"
    by (elim exE conjE)
  then show "\<exists>bodies. list_all2 (\<lambda>kv b. to_json (snd kv) = Inr b) kvs bodies \<and>
         s' = ''{'' @ join '','' (map2 (\<lambda>kv b. json_string (fst kv) @ '':'' @ b) kvs bodies)
                @ ''}''"
    unfolding to_json_def s' by (intro exI [of _ bodies] conjI) simp_all
next
  assume "visit n d = Inr d'"
  then show "map fst d' = foldl add_key (map fst d) (fields_written n)"
    by (rule visit_keys(1))
qed

theorem serialization_compact_insertion_order_witness:
  "to_json (PDict [(''imports'', PList [PStr ''os''])])
     = Inr (''{'' @ json_string ''imports'' @ '':['' @ json_string ''os'' @ '']}'') \<and>
   strings_of (PDict [(''imports'', PList [PStr ''os''])]) = [''imports'', ''os''] \<and>
   set (''{'' @ json_string ''imports'' @ '':['' @ json_string ''os'' @ '']}'') \<inter> whitespace = {} \<and>
   (\<exists>bodies. list_all2 (\<lambda>kv b. to_json (snd kv) = Inr b) [(''imports'', PList [PStr ''os''])] bodies \<and>
      ''{'' @ json_string ''imports'' @ '':['' @ json_string ''os'' @ '']}''
        = ''{'' @ join '','' (map2 (\<lambda>kv b. json_string (fst kv) @ '':'' @ b)
                                [(''imports'', PList [PStr ''os''])] bodies) @ ''}'') \<and>
   visit (Module [Import [Alias ''os'' None]]) [] = Inr [(''imports'', PList [PStr ''os''])] \<and>
   map fst [(''imports'', PList [PStr ''os''])]
     = foldl add_key (map fst ([] :: pydict)) (fields_written (Module [Import [Alias ''os'' None]]))"
proof -
  let ?d = "[(''imports'', PList [PStr ''os''])]"
  let ?s = "''{'' @ json_string ''imports'' @ '':['' @ json_string ''os'' @ '']}''"
  let ?n = "Module [Import [Alias ''os'' None]]"
  have j: "to_json (PDict ?d) = Inr ?s"
    by (simp add: to_json_def json_string_def escape_char_def)
  have t: "\<forall>t \<in> set (strings_of (PDict ?d)). CHR '' '' \<notin> set t"
    by simp
  have v: "visit ?n [] = Inr ?d"
    by (simp add: append_item_def getitem_default_def)
  note inst = serialization_compact_insertion_order [of "PDict ?d" ?s ?d ?s ?n "[]" ?d]
  have w: "set ?s \<inter> whitespace = {}"
    using inst [THEN conjunct1, THEN mp, THEN mp, OF j t] .
  have m: "\<exists>bodies. list_all2 (\<lambda>kv b. to_json (snd kv) = Inr b) ?d bodies \<and>
      ?s = ''{'' @ join '','' (map2 (\<lambda>kv b. json_string (fst kv) @ '':'' @ b) ?d bodies) @ ''}''"
    using inst [THEN conjunct2, THEN conjunct1, THEN mp, OF j] .
  have k: "map fst ?d = foldl add_key (map fst ([] :: pydict)) (fields_written ?n)"
    using inst [THEN conjunct2, THEN conjunct2, THEN mp, OF v] .
  have "strings_of (PDict ?d) = [''imports'', ''os'']"
    by simp
  then show ?thesis
    using j w m v k by (intro conjI)
qed

text \<open>
  C7 as the specification words it fails: for \<open>def f(): pass\<close> followed by \<open>import os\<close>
  the report, and its serialization, have \<open>functions\<close> before \<open>imports\<close>.
\<close>

theorem key_order_counterexample:
  "visit (Module [FunctionDef ''f'' [] [Other []], Import [Alias ''os'' None]]) [] =
     Inr [(''functions'', PList [PDict [(''name'', PStr ''f''), (''args'', PList [])]]),
          (''imports'', PList [PStr ''os''])] \<and>
   to_json (PDict [(''functions'', PList [PDict [(''name'', PStr ''f''), (''args'', PList [])]]),
                   (''imports'', PList [PStr ''os''])]) =
     Inr (''{'' @ json_string ''functions'' @ '':[{'' @ json_string ''name'' @ '':''
            @ json_string ''f'' @ '','' @ json_string ''args'' @ '':[]}],''
            @ json_string ''imports'' @ '':['' @ json_string ''os'' @ '']}'')"
  by (simp add: append_item_def getitem_default_def to_json_def json_string_def escape_char_def)

section \<open>The empty file (C2)\<close>

text \<open>
  C2, as the code has it.  Where the parser gives the empty module for the empty text,
  the single-file path returns an empty default-valued dictionary for an empty \<open>.py\<close>
  file: none of the four fields is a key of it (it serializes as \<open>{}\<close>), and each of
  them reads as the empty list when it is looked up.
\<close>

theorem empty_file_report:
  assumes "ast_parse env [] = Inr (Module [])" and "endswith file_name ''.py''"
  shows "\<exists>d. process_regular_file env file_name [] = Inr (PDict d) \<and> map fst d = [] \<and>
           list_all (\<lambda>k. map_of d k = None \<and> getitem_default d k = PList []) report_fields \<and>
           to_json (PDict d) = Inr ''{}''"
  using assms
  by (simp add: process_regular_file_def parse_node_def report_fields_def
      getitem_default_def to_json_def)

theorem empty_file_report_witness:
  "ast_parse sample_env [] = Inr (Module []) \<and> endswith ''empty.py'' ''.py'' \<and>
   (\<exists>d. process_regular_file sample_env ''empty.py'' [] = Inr (PDict d) \<and> map fst d = [] \<and>
      list_all (\<lambda>k. map_of d k = None \<and> getitem_default d k = PList []) report_fields \<and>
      to_json (PDict d) = Inr ''{}'')"
proof -
  have p: "ast_parse sample_env [] = Inr (Module [])"
    by (simp add: sample_env_def)
  have e: "endswith ''empty.py'' ''.py''"
    by (simp add: endswith_def)
  from empty_file_report [OF p e] p e show ?thesis
    by (intro conjI)
qed

text \<open>
  C2 as the specification words it fails: the report of the empty file has no field
  \<open>imports\<close>.
\<close>

theorem empty_file_counterexample:
  "process_regular_file sample_env ''empty.py'' [] = Inr (PDict []) \<and>
   map_of ([] :: pydict) ''imports'' = None \<and>
   to_json (PDict []) = Inr ''{}''"
  by (simp add: process_regular_file_def parse_node_def sample_env_def endswith_def to_json_def)

section \<open>The scenario (C3)\<close>

text \<open>
  C3, as the code has it.  The scenario gives the imports, the class, the method and
  the call of the specification; the call record also holds \<open>type\<close>, and a field that
  nothing was appended to is absent at every level.
\<close>

theorem scenario_report:
  "parse_node scenario_tree [] =
     Inr [(''imports'', PList [PStr ''os'']),
          (''classes'',
           PList [PDict
             [(''name'', PStr ''A''),
              (''bases'', PList [PStr ''Base'']),
              (''functions'',
               PList [PDict
                 [(''name'', PStr ''f''),
                  (''args'', PList [PStr ''self'', PStr ''x'']),
                  (''statements'',
                   PList [PDict
                     [(''type'', PStr ''function_call''),
                      (''func'', PStr ''bar''),
                      (''args'', PList [PNum 1, PStr ''a'']),
                      (''keywords'', PList [])]])]])]])]"
  by (simp add: parse_node_def scenario_tree_def append_item_def getitem_default_def call_node_def)

text \<open>
  C3 as the specification words it fails: the report of the scenario has the keys
  \<open>imports\<close> and \<open>classes\<close> only; \<open>functions\<close> and \<open>statements\<close> are not empty lists.
\<close>

theorem scenario_fields_counterexample:
  "map_sum id (map fst) (parse_node scenario_tree []) = Inr [''imports'', ''classes'']"
  by (simp add: parse_node_def scenario_tree_def append_item_def getitem_default_def call_node_def)

section \<open>Locators that name nothing (C10)\<close>



section \<open>Excluded and empty directories (C5)\<close>






section \<open>Parse failures in a walk (C6)\<close>

lemma process_regular_file_ok:
  assumes "endswith file_name ''.py''" and "ast_parse env source = Inr tree"
  shows "\<exists>d. process_regular_file env file_name source = Inr (PDict d)"
proof -
  from visit_total(1) [OF is_report_empty] obtain d where "visit tree [] = Inr d"
    by blast
  with assms show ?thesis
    by (simp add: process_regular_file_def parse_node_def)
qed

lemma process_regular_file_fails:
  "endswith file_name ''.py'' \<Longrightarrow> ast_parse env source = Inl e \<Longrightarrow>
   process_regular_file env file_name source = Inl e"
  by (simp add: process_regular_file_def)

lemma first_failure_append:
  "first_failure env (xs @ ys) =
     (case first_failure env xs of Some e \<Rightarrow> Some e | None \<Rightarrow> first_failure env ys)"
  by (induction xs) (auto split: sum.splits)

lemma first_failure_member:
  "source \<in> set sources \<Longrightarrow> ast_parse env source = Inl e \<Longrightarrow>
   \<exists>e'. first_failure env sources = Some e'"
  by (induction sources) (auto split: sum.splits)

lemma walk_result:
  "(\<forall>e. first_failure env (walked_sources env root_name real_name entries) = Some e \<longrightarrow>
      process_directory env root_name real_name entries = Inl e) \<and>
   (first_failure env (walked_sources env root_name real_name entries) = None \<longrightarrow>
      (\<exists>out. process_directory env root_name real_name entries = Inr out))"
proof (induction env root_name real_name entries rule: process_directory.induct)
  case (1 env root_name real_name)
  then show ?case by simp
next
  case (2 env root_name real_name name source rest)
  let ?file = "glob_path real_name name"
  show ?case
  proof (cases "\<not> ishidden name \<and> endswith ?file ''.py''")
    case False
    with 2(2) show ?thesis by auto
  next
    case True
    show ?thesis
    proof (cases "ast_parse env source")
      case (Inl e)
      with True show ?thesis
        by (simp add: process_regular_file_fails)
    next
      case (Inr tree)
      from process_regular_file_ok [OF _ Inr, of ?file] True obtain d
        where d: "process_regular_file env ?file source = Inr (PDict d)"
        by blast
      from 2(1) [OF refl refl _ d] True have
        "(\<forall>e. first_failure env (walked_sources env root_name real_name rest) = Some e \<longrightarrow>
            process_directory env root_name real_name rest = Inl e) \<and>
         (first_failure env (walked_sources env root_name real_name rest) = None \<longrightarrow>
            (\<exists>out. process_directory env root_name real_name rest = Inr out))"
        by simp
      with True Inr d show ?thesis
        by (auto simp: Let_def)
    qed
  qed
next
  case (3 env root_name real_name name children rest)
  let ?file = "glob_path real_name name"
  let ?simple = "relpath (getcwd env) ?file root_name"
  show ?case
  proof (cases "\<not> ishidden name \<and> ?simple \<notin> set (files_to_ignore env)")
    case False
    with 3(3) show ?thesis by auto
  next
    case True
    from 3(1) [OF refl refl True] have sub:
      "(\<forall>e. first_failure env (walked_sources env root_name ?file children) = Some e \<longrightarrow>
          process_directory env root_name ?file children = Inl e) \<and>
       (first_failure env (walked_sources env root_name ?file children) = None \<longrightarrow>
          (\<exists>out. process_directory env root_name ?file children = Inr out))" .
    show ?thesis
    proof (cases "first_failure env (walked_sources env root_name ?file children)")
      case (Some e)
      with sub True show ?thesis
        by (simp add: first_failure_append Let_def)
    next
      case None
      with sub obtain out where out: "process_directory env root_name ?file children = Inr out"
        by blast
      from 3(2) [OF refl refl True out] have
        "(\<forall>e. first_failure env (walked_sources env root_name real_name rest) = Some e \<longrightarrow>
            process_directory env root_name real_name rest = Inl e) \<and>
         (first_failure env (walked_sources env root_name real_name rest) = None \<longrightarrow>
            (\<exists>out. process_directory env root_name real_name rest = Inr out))" .
      with True None out show ?thesis
        by (auto simp: first_failure_append Let_def)
    qed
  qed
next
  case (4 env root_name real_name name rest)
  then show ?case by simp
qed

text \<open>
  C6.  When the parser fails on the text of a file that the walk reaches, the walk
  raises: its result is the error of the first such file in the order of the walk, and
  no list of entries.  The dispatcher, called on that directory, raises the same error.
\<close>

theorem parse_failure_aborts_walk:
  assumes "source \<in> set (walked_sources env root_name real_name entries)"
    and "ast_parse env source = Inl e"
  shows "\<exists>e'. first_failure env (walked_sources env root_name real_name entries) = Some e' \<and>
           process_directory env root_name real_name entries = Inl e' \<and>
           (url_scheme env root_name \<notin> {''http'', ''https''} \<longrightarrow>
            fs root_name = Some (Directory entries) \<longrightarrow> real_name = root_name \<longrightarrow>
              parse_source_file env fs root_name project_name = Some (Inl e', fs))"
proof -
  from first_failure_member [OF assms] obtain e'
    where f: "first_failure env (walked_sources env root_name real_name entries) = Some e'"
    by blast
  with walk_result [of env root_name real_name entries]
  have w: "process_directory env root_name real_name entries = Inl e'"
    by blast
  have "parse_source_file env fs root_name project_name = Some (Inl e', fs)"
    if "url_scheme env root_name \<notin> {''http'', ''https''}"
      and "fs root_name = Some (Directory entries)" and "real_name = root_name"
    using that w by (subst parse_source_file.simps) simp
  with f w show ?thesis
    by blast
qed

theorem parse_failure_aborts_walk_witness:
  "''x = ('' \<in> set (walked_sources sample_env ''proj'' ''proj''
      [(''a.py'', RegularFile ''import os''),
       (''pkg'', Directory [(''bad.py'', RegularFile ''x = ('')]),
       (''c.py'', RegularFile [])]) \<and>
   ast_parse sample_env ''x = ('' = Inl SyntaxError \<and>
   process_directory sample_env ''proj'' ''proj''
      [(''a.py'', RegularFile ''import os''),
       (''pkg'', Directory [(''bad.py'', RegularFile ''x = ('')]),
       (''c.py'', RegularFile [])] = Inl SyntaxError \<and>
   parse_source_file sample_env
      [''proj'' \<mapsto> Directory
         [(''a.py'', RegularFile ''import os''),
          (''pkg'', Directory [(''bad.py'', RegularFile ''x = ('')]),
          (''c.py'', RegularFile [])]]
      ''proj'' None =
     Some (Inl SyntaxError,
       [''proj'' \<mapsto> Directory
         [(''a.py'', RegularFile ''import os''),
          (''pkg'', Directory [(''bad.py'', RegularFile ''x = ('')]),
          (''c.py'', RegularFile [])]])"
proof -
  let ?entries = "[(''a.py'', RegularFile ''import os''),
       (''pkg'', Directory [(''bad.py'', RegularFile ''x = ('')]),
       (''c.py'', RegularFile [])]"
  let ?fs = "[''proj'' \<mapsto> Directory ?entries]"
  have rel: "relpath ''/home/u'' ''proj/pkg'' ''proj'' = ''pkg''"
    by (simp add: relpath_def abs_components_def norm_step_def)
  have m: "''x = ('' \<in> set (walked_sources sample_env ''proj'' ''proj'' ?entries)"
    by (simp add: glob_path_def glob_head_def path_join_def endswith_def sample_env_def rel)
  have p: "ast_parse sample_env ''x = ('' = Inl SyntaxError"
    by (simp add: sample_env_def)
  have f: "first_failure sample_env (walked_sources sample_env ''proj'' ''proj'' ?entries)
             = Some SyntaxError"
    by (simp add: glob_path_def glob_head_def path_join_def endswith_def sample_env_def rel)
  have u: "url_scheme sample_env ''proj'' \<notin> {''http'', ''https''}"
    by (simp add: sample_env_def)
  have l: "?fs ''proj'' = Some (Directory ?entries)"
    by simp
  from parse_failure_aborts_walk [OF m p, of ?fs None] obtain e'
    where e1: "first_failure sample_env (walked_sources sample_env ''proj'' ''proj'' ?entries) = Some e'"
      and e2: "process_directory sample_env ''proj'' ''proj'' ?entries = Inl e'"
      and e3: "url_scheme sample_env ''proj'' \<notin> {''http'', ''https''} \<longrightarrow>
            ?fs ''proj'' = Some (Directory ?entries) \<longrightarrow> ''proj'' = ''proj'' \<longrightarrow>
              parse_source_file sample_env ?fs ''proj'' None = Some (Inl e', ?fs)"
    by (elim exE conjE)
  from e1 f have e': "e' = SyntaxError"
    by simp
  from e3 [THEN mp, THEN mp, THEN mp, OF u l refl]
  have "parse_source_file sample_env ?fs ''proj'' None = Some (Inl e', ?fs)" .
  with e2 m p show ?thesis
    unfolding e' by (intro conjI)
qed

section \<open>Remote repositories (C9)\<close>




end
